theory Spec2Isabelle
  imports Complex_Main "HOL-Library.Multiset" "HOL-Library.Sublist" "HOL-Library.AList"
begin

section \<open>CiteWise: page-aware chunking and multi-collection retrieval\<close>

text \<open>
  A shallow embedding of the pure logic of \<^verbatim>\<open>Archive/citewise_utils.py\<close>,
  \<^verbatim>\<open>pages/001_Upload_Sources.py\<close> and \<^verbatim>\<open>pages/002_Find_Citations.py\<close>.
  Python strings are modelled as HOL strings, one \<^typ>\<open>char\<close> per Python character
  (texts are restricted to code points below 256). Distances are modelled as reals, so
  the floating-point value NaN, which is not ordered, is outside the model. The external
  collaborators (the text splitter, the embedding model, the vector store) are parameters
  of the functions that call them; what they raise is a value of type \<open>exn\<close>.
\<close>

subsection \<open>Python primitives\<close>

datatype exn = KeyError string | TypeError | IndexError | StoreFailure string | ModelFailure string

text \<open>\<^verbatim>\<open>xs[:n]\<close>: a negative bound counts from the end of the list.\<close>

definition slice_to :: "'a list \<Rightarrow> int \<Rightarrow> 'a list" where
  "slice_to xs n = (if 0 \<le> n then take (nat n) xs else take (length xs - nat (- n)) xs)"

text \<open>\<^verbatim>\<open>xs[-n:]\<close> for a positive literal \<open>n\<close>: the last \<open>n\<close> elements, the whole list when
  it is shorter.\<close>

definition slice_last :: "nat \<Rightarrow> 'a list \<Rightarrow> 'a list" where
  "slice_last n xs = drop (length xs - n) xs"

text \<open>\<^verbatim>\<open>str.isspace\<close> on the characters below 256: the ASCII white space, the separators
  \<open>0x1C\<close> to \<open>0x1F\<close>, NEL and the no-break space. \<^verbatim>\<open>str.strip\<close> and the pattern \<^verbatim>\<open>\s\<close>
  use this class.\<close>

definition isspace :: "char \<Rightarrow> bool" where
  "isspace c = (c \<in> set [CHR 0x09, CHR 0x0A, CHR 0x0B, CHR 0x0C, CHR 0x0D,
                          CHR 0x1C, CHR 0x1D, CHR 0x1E, CHR 0x1F, CHR 0x20,
                          CHR 0x85, CHR 0xA0])"

definition strip :: "string \<Rightarrow> string" where
  "strip s = rev (dropWhile isspace (rev (dropWhile isspace s)))"

definition isdigit :: "char \<Rightarrow> bool" where
  "isdigit c = (c \<in> set ''0123456789'')"

definition digit_char :: "nat \<Rightarrow> char" where
  "digit_char n = ''0123456789'' ! (n mod 10)"

definition digit_val :: "char \<Rightarrow> nat" where
  "digit_val c = length (takeWhile (\<lambda>d. d \<noteq> c) ''0123456789'')"

text \<open>\<^verbatim>\<open>str(n)\<close> for an integer: its decimal digits, with a minus sign when negative.\<close>

fun str_nat :: "nat \<Rightarrow> string" where
  "str_nat n = (if n < 10 then [digit_char n] else str_nat (n div 10) @ [digit_char (n mod 10)])"

declare str_nat.simps [simp del]

definition str_int :: "int \<Rightarrow> string" where
  "str_int n = (if n < 0 then CHR ''-'' # str_nat (nat (- n)) else str_nat (nat n))"

text \<open>\<^verbatim>\<open>int(s)\<close> for a string. The white space that \<^verbatim>\<open>int\<close> ignores around
  the literal is narrower than that of \<^verbatim>\<open>str.strip\<close>: the separators \<open>0x1C\<close> to \<open>0x1F\<close>
  are not ignored. One sign is allowed, and the digits may be grouped by single
  underscores. A literal of more than 4300 digits (the interpreter's default limit,
  which counts neither the sign nor the underscores) is refused. \<open>None\<close> stands for the
  \<^verbatim>\<open>ValueError\<close> that \<^verbatim>\<open>int\<close> raises in every other case.\<close>

definition int_space :: "char \<Rightarrow> bool" where
  "int_space c = (c \<in> set [CHR 0x09, CHR 0x0A, CHR 0x0B, CHR 0x0C, CHR 0x0D, CHR 0x20,
                            CHR 0x85, CHR 0xA0])"

definition int_strip :: "string \<Rightarrow> string" where
  "int_strip s = rev (dropWhile int_space (rev (dropWhile int_space s)))"

fun digits_ok :: "string \<Rightarrow> bool" where
  "digits_ok [] = False"
| "digits_ok [c] = isdigit c"
| "digits_ok (c # d # cs) =
     (isdigit c \<and> (if d = CHR ''_'' then digits_ok cs else digits_ok (d # cs)))"

definition max_str_digits :: nat where
  "max_str_digits = 4300"

definition digits_value :: "string \<Rightarrow> nat" where
  "digits_value s = foldl (\<lambda>a c. 10 * a + digit_val c) 0 (filter (\<lambda>c. c \<noteq> CHR ''_'') s)"

definition int_of_str :: "string \<Rightarrow> int option" where
  "int_of_str s =
     (case int_strip s of
        [] \<Rightarrow> None
      | c # cs \<Rightarrow>
          (let body = (if c = CHR ''-'' \<or> c = CHR ''+'' then cs else c # cs)
           in if digits_ok body \<and>
                 length (filter (\<lambda>c. c \<noteq> CHR ''_'') body) \<le> max_str_digits
              then Some (if c = CHR ''-'' then - int (digits_value body) else int (digits_value body))
              else None))"

subsection \<open>The retrieved-chunk record\<close>

type_synonym metadata_dict = "(string \<times> string) list"

text \<open>The attribute \<open>metadata\<close> of a Python object may hold \<^verbatim>\<open>None\<close>; it is modelled as
  an option, \<open>None\<close> for \<^verbatim>\<open>None\<close>.\<close>

record Source =
  filename :: string
  id' :: string
  doc :: string
  metadata :: "metadata_dict option"
  distance :: real

text \<open>\<^verbatim>\<open>Source.__init__\<close>: \<^verbatim>\<open>self.metadata = metadata or {}\<close>. The argument is \<^verbatim>\<open>None\<close> or
  a dict; both \<^verbatim>\<open>None\<close> and the empty dict are falsy.\<close>

definition Source_init ::
  "string \<Rightarrow> string \<Rightarrow> string \<Rightarrow> metadata_dict option \<Rightarrow> real \<Rightarrow> Source" where
  "Source_init fn i d m dv =
     \<lparr>filename = fn, id' = i, doc = d,
      metadata = (case m of None \<Rightarrow> Some [] | Some md \<Rightarrow> (if md = [] then Some [] else Some md)),
      distance = dv\<rparr>"

subsection \<open>Global re-rank\<close>

text \<open>\<^verbatim>\<open>sorted(sources_list, key=lambda x: x.distance)[:num_k]\<close>. Python's \<^verbatim>\<open>sorted\<close> is a
  stable sort; it is modelled by the stable sort \<^const>\<open>sort_key\<close> of the list library.\<close>

definition get_top_k_sources :: "Source list \<Rightarrow> int \<Rightarrow> Source list" where
  "get_top_k_sources sources_list num_k =
     (if sources_list = [] then []
      else slice_to (sort_key distance sources_list) num_k)"

subsection \<open>The embedding model and the vector store\<close>

text \<open>
  The embedding model is a function from the text to the vector it returns or the
  exception it raises. A store maps a collection name to the collection that
  \<^verbatim>\<open>PersistentClient(path).get_or_create_collection(name)\<close> returns, or to the exception
  it raises; a collection maps a query vector and a result count to the result of
  \<^verbatim>\<open>collection.query\<close>, or to the exception it raises. Every call of a collaborator is
  recorded as an event, in call order.
\<close>

type_synonym vec = "real list"

type_synonym encoder = "string \<Rightarrow> exn + vec"

text \<open>A query result is the dictionary the store returns. Each of its four keys is
  absent, holds \<^verbatim>\<open>None\<close>, or holds a list of rows; the empty dictionary has no key.\<close>

datatype 'a field = Absent | NoneValue | Present 'a

record query_result =
  ids :: "string list list field"
  documents :: "string list list field"
  metadatas :: "metadata_dict option list list field"
  distances :: "real list list field"

definition empty_result :: query_result where
  "empty_result = \<lparr>ids = Absent, documents = Absent, metadatas = Absent, distances = Absent\<rparr>"

type_synonym collection = "vec \<Rightarrow> int \<Rightarrow> exn + query_result"

type_synonym store = "string \<Rightarrow> exn + collection"

datatype event = Encode string | GetOrCreate string | Query string vec int

text \<open>\<^verbatim>\<open>embed_query\<close>: \<^verbatim>\<open>q = (query or "").strip()\<close>; a blank \<open>q\<close> returns \<^verbatim>\<open>None\<close> before
  the model is called, and \<^verbatim>\<open>except Exception\<close> turns a failure of the model into
  \<^verbatim>\<open>None\<close>.\<close>

definition embed_query :: "encoder \<Rightarrow> string option \<Rightarrow> event list \<times> vec option" where
  "embed_query embedder query =
     (let q = strip (case query of None \<Rightarrow> [] | Some s \<Rightarrow> s)
      in if q = [] then ([], None)
         else (case embedder q of
                 Inl e \<Rightarrow> ([Encode q], None)
               | Inr v \<Rightarrow> ([Encode q], Some v)))"

text \<open>\<^verbatim>\<open>retrieve_top_k\<close>: the collection is fetched first, then a missing embedding returns
  the empty dictionary, then \<open>k\<close> is clamped and the collection is queried. Neither call
  is inside a \<^verbatim>\<open>try\<close>.\<close>

definition retrieve_top_k ::
  "store \<Rightarrow> vec option \<Rightarrow> int \<Rightarrow> string \<Rightarrow> event list \<times> (exn + query_result)" where
  "retrieve_top_k db query_embedding k collection_name =
     (case db collection_name of
        Inl e \<Rightarrow> ([GetOrCreate collection_name], Inl e)
      | Inr coll \<Rightarrow>
          (case query_embedding of
             None \<Rightarrow> ([GetOrCreate collection_name], Inr empty_result)
           | Some q \<Rightarrow>
               (let k' = max 1 (min k 50)
                in ([GetOrCreate collection_name, Query collection_name q k'], coll q k'))))"

subsection \<open>Flattening the per-collection results\<close>

text \<open>\<^verbatim>\<open>xs[i]\<close> for \<open>i \<ge> 0\<close>, and \<^verbatim>\<open>results[key][0][i]\<close>.\<close>

definition nth_or_raise :: "'a list \<Rightarrow> nat \<Rightarrow> exn + 'a" where
  "nth_or_raise xs i = (if i < length xs then Inr (xs ! i) else Inl IndexError)"

definition field_at :: "string \<Rightarrow> 'a list list field \<Rightarrow> nat \<Rightarrow> exn + 'a" where
  "field_at key fld i =
     (case fld of
        Absent \<Rightarrow> Inl (KeyError key)
      | NoneValue \<Rightarrow> Inl TypeError
      | Present [] \<Rightarrow> Inl IndexError
      | Present (row # _) \<Rightarrow> nth_or_raise row i)"

text \<open>\<^verbatim>\<open>results["ids"][0]\<close> where the guards have shown that it exists.\<close>

definition ids_row :: "query_result \<Rightarrow> string list" where
  "ids_row results = (case ids results of Present (row # _) \<Rightarrow> row | _ \<Rightarrow> [])"

text \<open>The guard of \<^verbatim>\<open>get_sources\<close>:
  \<^verbatim>\<open>not results or "ids" not in results or not results["ids"] or not results["ids"][0]\<close>.\<close>

definition no_ids :: "query_result \<Rightarrow> bool" where
  "no_ids results =
     (results = empty_result \<or>
      (case ids results of
         Absent \<Rightarrow> True
       | NoneValue \<Rightarrow> True
       | Present [] \<Rightarrow> True
       | Present (row # _) \<Rightarrow> row = []))"

definition source_at :: "string \<Rightarrow> query_result \<Rightarrow> nat \<Rightarrow> exn + Source" where
  "source_at fname results i =
     (case field_at ''ids'' (ids results) i of Inl e \<Rightarrow> Inl e | Inr sid \<Rightarrow>
      (case field_at ''documents'' (documents results) i of Inl e \<Rightarrow> Inl e | Inr d \<Rightarrow>
       (case field_at ''metadatas'' (metadatas results) i of Inl e \<Rightarrow> Inl e | Inr m \<Rightarrow>
        (case field_at ''distances'' (distances results) i of Inl e \<Rightarrow> Inl e | Inr dv \<Rightarrow>
           Inr (Source_init fname sid d m dv)))))"

text \<open>The inner loop \<^verbatim>\<open>for i in range(count)\<close>; the first exception ends it.\<close>

fun sources_from :: "string \<Rightarrow> query_result \<Rightarrow> nat list \<Rightarrow> exn + Source list" where
  "sources_from fname results [] = Inr []"
| "sources_from fname results (i # js) =
     (case source_at fname results i of
        Inl e \<Rightarrow> Inl e
      | Inr s \<Rightarrow>
          (case sources_from fname results js of
             Inl e \<Rightarrow> Inl e
           | Inr ss \<Rightarrow> Inr (s # ss)))"

text \<open>\<^verbatim>\<open>get_sources\<close>: the dictionary is an association list in insertion order.\<close>

fun get_sources :: "(string \<times> query_result) list \<Rightarrow> exn + Source list" where
  "get_sources [] = Inr []"
| "get_sources ((fname, results) # rest) =
     (if no_ids results then get_sources rest
      else (case sources_from fname results [0 ..< length (ids_row results)] of
              Inl e \<Rightarrow> Inl e
            | Inr ss \<Rightarrow>
                (case get_sources rest of
                   Inl e \<Rightarrow> Inl e
                 | Inr ss' \<Rightarrow> Inr (ss @ ss'))))"

subsection \<open>The search\<close>

datatype outcome = Warning string | Error string | Info string | Results "Source list"

text \<open>The test \<^verbatim>\<open>res and res.get("ids") and res["ids"][0]\<close> of the retrieval loop.\<close>

definition has_hits :: "query_result \<Rightarrow> bool" where
  "has_hits res =
     (res \<noteq> empty_result \<and>
      (case ids res of
         Absent \<Rightarrow> False
       | NoneValue \<Rightarrow> False
       | Present [] \<Rightarrow> False
       | Present (row # _) \<Rightarrow> row \<noteq> []))"

text \<open>The retrieval loop over \<^verbatim>\<open>selected_sources\<close>. \<^verbatim>\<open>results_by_collection[name] = res\<close>
  replaces the value of a key that is present and appends a new key.\<close>

fun retrieve_all ::
  "store \<Rightarrow> vec \<Rightarrow> int \<Rightarrow> string list \<Rightarrow> (string \<times> query_result) list \<Rightarrow>
   event list \<times> (exn + (string \<times> query_result) list)" where
  "retrieve_all db qvec k [] rbc = ([], Inr rbc)"
| "retrieve_all db qvec k (name # names) rbc =
     (case retrieve_top_k db (Some qvec) k name of
        (ev, Inl e) \<Rightarrow> (ev, Inl e)
      | (ev, Inr res) \<Rightarrow>
          (case retrieve_all db qvec k names
                  (if has_hits res then AList.update name res rbc else rbc) of
             (ev', r) \<Rightarrow> (ev @ ev', r)))"

definition select_warning :: string where
  "select_warning = ''Please select at least one source to search.''"

definition query_warning :: string where
  "query_warning = ''Please enter a query.''"

definition number_warning :: string where
  "number_warning = ''Please enter a valid positive number for matches.''"

definition embed_error :: string where
  "embed_error = ''Could not embed your query. Please try a different query or reload the app.''"

definition no_results_warning :: string where
  "no_results_warning = ''No results returned from the selected sources.''"

definition no_matches_info :: string where
  "no_matches_info = ''No matches found.''"

text \<open>The part of \<^verbatim>\<open>run_search_logic\<close> after the validations.\<close>

definition search_validated ::
  "encoder \<Rightarrow> store \<Rightarrow> string \<Rightarrow> int \<Rightarrow> string list \<Rightarrow> event list \<times> (exn + outcome)" where
  "search_validated embedder db user_query k selected_sources =
     (case embed_query embedder (Some user_query) of
        (ev, None) \<Rightarrow> (ev, Inr (Error embed_error))
      | (ev, Some qvec) \<Rightarrow>
          (case retrieve_all db qvec k selected_sources [] of
             (ev', Inl e) \<Rightarrow> (ev @ ev', Inl e)
           | (ev', Inr rbc) \<Rightarrow>
               (if rbc = [] then (ev @ ev', Inr (Warning no_results_warning))
                else (case get_sources rbc of
                        Inl e \<Rightarrow> (ev @ ev', Inl e)
                      | Inr flat_sources \<Rightarrow>
                          (let top_hits = get_top_k_sources flat_sources k
                           in if top_hits = [] then (ev @ ev', Inr (Info no_matches_info))
                              else (ev @ ev', Inr (Results top_hits)))))))"

text \<open>\<^verbatim>\<open>run_search_logic\<close>. The only exception \<^verbatim>\<open>int(num_k)\<close> raises on a string is the
  \<^verbatim>\<open>ValueError\<close> that the \<^verbatim>\<open>except\<close> clause catches.\<close>

definition run_search_logic ::
  "encoder \<Rightarrow> store \<Rightarrow> string \<Rightarrow> string \<Rightarrow> string list \<Rightarrow> event list \<times> (exn + outcome)" where
  "run_search_logic embedder db user_query num_k selected_sources =
     (if selected_sources = [] then ([], Inr (Warning select_warning))
      else if strip user_query = [] then ([], Inr (Warning query_warning))
      else (case int_of_str num_k of
              None \<Rightarrow> ([], Inr (Warning number_warning))
            | Some k \<Rightarrow>
                (if k \<le> 0 then ([], Inr (Warning number_warning))
                 else search_validated embedder db user_query k selected_sources)))"

subsection \<open>Cleaning the page text\<close>

text \<open>\<^verbatim>\<open>re.sub(r"\(cid:\d+\)", "", text)\<close>. A match at the head of the text is
  \<^verbatim>\<open>(cid:\<close>, the longest run of digits, which must not be empty, and \<^verbatim>\<open>)\<close>;
  \<open>match_cid\<close> returns the text after the match.\<close>

definition match_cid :: "string \<Rightarrow> string option" where
  "match_cid s =
     (if take 5 s = ''(cid:''
      then (case dropWhile isdigit (drop 5 s) of
              [] \<Rightarrow> None
            | c # rest \<Rightarrow>
                (if takeWhile isdigit (drop 5 s) \<noteq> [] \<and> c = CHR '')'' then Some rest
                 else None))
      else None)"

function remove_cid :: "string \<Rightarrow> string" where
  "remove_cid [] = []"
| "remove_cid (c # cs) =
     (case match_cid (c # cs) of
        Some rest \<Rightarrow> remove_cid rest
      | None \<Rightarrow> c # remove_cid cs)"
  by pat_completeness auto
termination
proof (relation "measure length")
  fix c :: char and cs rest :: string
  assume m: "match_cid (c # cs) = Some rest"
  then obtain d where "dropWhile isdigit (drop 5 (c # cs)) = d # rest"
    by (auto simp: match_cid_def split: if_splits list.splits)
  then have "length (d # rest) \<le> length (drop 5 (c # cs))"
    by (metis length_dropWhile_le)
  then show "(rest, c # cs) \<in> measure length"
    by simp
qed simp_all

text \<open>\<^verbatim>\<open>re.sub(r"\s+", " ", text)\<close>: every maximal run of white space becomes one
  space.\<close>

function collapse_ws :: "string \<Rightarrow> string" where
  "collapse_ws [] = []"
| "collapse_ws (c # cs) =
     (if isspace c then CHR '' '' # collapse_ws (dropWhile isspace cs)
      else c # collapse_ws cs)"
  by pat_completeness auto
termination
  by (relation "measure length") (simp_all add: le_imp_less_Suc length_dropWhile_le)

definition clean_text :: "string \<Rightarrow> string" where
  "clean_text txt =
     strip (collapse_ws (map (\<lambda>c. if c = CHR 0x0A then CHR '' '' else c) (remove_cid txt)))"

subsection \<open>Pages and chunks\<close>

text \<open>A page is the dictionary that \<^verbatim>\<open>load_pdf_pages\<close> builds; its \<^verbatim>\<open>page_num\<close> is a
  list. The field \<^verbatim>\<open>text\<close> is called \<open>page_text\<close>.\<close>

record page =
  page_num :: "int list"
  source :: string
  page_text :: string

record chunk =
  chunk_page_num :: "int list"
  chunk_source :: string
  chunk_id :: string
  chunk_text :: string

text \<open>The page loop of \<^verbatim>\<open>load_pdf_pages\<close>, on the file name stem and the raw texts of
  the pages of the opened document: a page whose cleaned text is empty is left out, and
  the others keep their number in the document, counted from 1.\<close>

definition load_pdf_pages :: "string \<Rightarrow> string list \<Rightarrow> page list" where
  "load_pdf_pages fname raw_texts =
     map (\<lambda>(i, cleaned). \<lparr>page_num = [int i + 1], source = fname, page_text = cleaned\<rparr>)
       (filter (\<lambda>(i, cleaned). cleaned \<noteq> [])
          (zip [0 ..< length raw_texts] (map clean_text raw_texts)))"

text \<open>The splitter is the library's \<^verbatim>\<open>RecursiveCharacterTextSplitter\<close>, configured with
  \<^verbatim>\<open>chunk_size=1000\<close> and \<^verbatim>\<open>chunk_overlap=200\<close>; its \<^verbatim>\<open>split_text\<close> is a parameter of
  the chunker. The library strips every part it returns and returns none that is empty;
  a statement that depends on this says so.\<close>

type_synonym splitter = "string \<Rightarrow> string list"

definition chunk_size :: nat where
  "chunk_size = 1000"

definition chunk_overlap :: nat where
  "chunk_overlap = 200"

text \<open>\<^verbatim>\<open>page["page_num"][0]\<close>.\<close>

definition first_page_num :: "page \<Rightarrow> exn + int" where
  "first_page_num p = (case page_num p of [] \<Rightarrow> Inl IndexError | n # _ \<Rightarrow> Inr n)"

text \<open>The text handed to \<^verbatim>\<open>splitter.split_text\<close> for the page at index \<open>i\<close>:
  \<^verbatim>\<open>pages[i - 1]["text"][-300:] + " " + text\<close> when \<open>i > 0\<close>.\<close>

definition text_to_split :: "page list \<Rightarrow> nat \<Rightarrow> string" where
  "text_to_split pages i =
     (if 0 < i then slice_last 300 (page_text (pages ! (i - 1))) @ '' '' @ page_text (pages ! i)
      else page_text (pages ! i))"

text \<open>\<^verbatim>\<open>f"{filename}_p{curr_page_num}_c{j}"\<close>.\<close>

definition make_chunk_id :: "string \<Rightarrow> int \<Rightarrow> nat \<Rightarrow> string" where
  "make_chunk_id fname curr_page_num j =
     fname @ ''_p'' @ str_int curr_page_num @ ''_c'' @ str_nat j"

text \<open>The inner loop \<^verbatim>\<open>for j, part in enumerate(split_parts)\<close>.\<close>

fun chunk_parts ::
  "page list \<Rightarrow> nat \<Rightarrow> int \<Rightarrow> string \<Rightarrow> (nat \<times> string) list \<Rightarrow> exn + chunk list" where
  "chunk_parts pages i curr_page_num fname [] = Inr []"
| "chunk_parts pages i curr_page_num fname ((j, part) # rest) =
     (if strip part = [] then chunk_parts pages i curr_page_num fname rest
      else (case (if 0 < i \<and> j = 0
                  then (case first_page_num (pages ! (i - 1)) of
                          Inl e \<Rightarrow> Inl e
                        | Inr prev \<Rightarrow> Inr [prev, curr_page_num])
                  else Inr [curr_page_num]) of
              Inl e \<Rightarrow> Inl e
            | Inr page_nums \<Rightarrow>
                (case chunk_parts pages i curr_page_num fname rest of
                   Inl e \<Rightarrow> Inl e
                 | Inr cs \<Rightarrow>
                     Inr (\<lparr>chunk_page_num = page_nums, chunk_source = fname,
                           chunk_id = make_chunk_id fname curr_page_num j,
                           chunk_text = part\<rparr> # cs))))"

text \<open>The body of the outer loop for the page at index \<open>i\<close>. The page number is read
  first; then the text is built and handed to \<^verbatim>\<open>splitter.split_text\<close>. The first component
  of the result lists the texts handed to the splitter, in call order.\<close>

definition page_chunks ::
  "splitter \<Rightarrow> page list \<Rightarrow> nat \<Rightarrow> string list \<times> (exn + chunk list)" where
  "page_chunks split_text pages i =
     (case first_page_num (pages ! i) of
        Inl e \<Rightarrow> ([], Inl e)
      | Inr curr_page_num \<Rightarrow>
          ([text_to_split pages i],
           chunk_parts pages i curr_page_num (source (pages ! i))
             (List.enumerate 0 (split_text (text_to_split pages i)))))"

text \<open>The outer loop \<^verbatim>\<open>for i, page in enumerate(pages)\<close>, over the indices of the pages.\<close>

fun chunk_pages ::
  "splitter \<Rightarrow> page list \<Rightarrow> nat list \<Rightarrow> string list \<times> (exn + chunk list)" where
  "chunk_pages split_text pages [] = ([], Inr [])"
| "chunk_pages split_text pages (i # rest) =
     (case page_chunks split_text pages i of
        (calls, Inl e) \<Rightarrow> (calls, Inl e)
      | (calls, Inr cs) \<Rightarrow>
          (case chunk_pages split_text pages rest of
             (calls', Inl e) \<Rightarrow> (calls @ calls', Inl e)
           | (calls', Inr cs') \<Rightarrow> (calls @ calls', Inr (cs @ cs'))))"

definition split_pages_with_metadata ::
  "splitter \<Rightarrow> page list \<Rightarrow> string list \<times> (exn + chunk list)" where
  "split_pages_with_metadata split_text pages = chunk_pages split_text pages [0 ..< length pages]"

text \<open>The positions, in the output of the splitter, of the parts that are not blank, and
  the chunk ids that the page at index \<open>i\<close> gets when \<open>j\<close> runs over these positions.\<close>

definition nonblank_positions :: "string list \<Rightarrow> nat list" where
  "nonblank_positions parts =
     map fst (filter (\<lambda>(j, part). strip part \<noteq> []) (List.enumerate 0 parts))"

definition page_chunk_ids :: "splitter \<Rightarrow> page list \<Rightarrow> nat \<Rightarrow> string list" where
  "page_chunk_ids split_text pages i =
     (case first_page_num (pages ! i) of
        Inl e \<Rightarrow> []
      | Inr n \<Rightarrow>
          map (make_chunk_id (source (pages ! i)) n)
            (nonblank_positions (split_text (text_to_split pages i))))"


subsection \<open>Example collaborators\<close>

text \<open>A model that embeds every text, one that always fails, and a store with two
  populated collections, one collection whose query fails, and empty collections under
  every other name.\<close>

definition demo_encoder :: encoder where
  "demo_encoder q = Inr [1]"

definition failing_encoder :: encoder where
  "failing_encoder q = Inl (ModelFailure ''model unavailable'')"

definition demo_result :: "string list \<Rightarrow> real list \<Rightarrow> int \<Rightarrow> query_result" where
  "demo_result hit_ids ds n =
     \<lparr>ids = Present [take (nat n) hit_ids],
      documents = Present [take (nat n) (map (\<lambda>i. ''text of '' @ i) hit_ids)],
      metadatas = Present [take (nat n) (map (\<lambda>i. None) hit_ids)],
      distances = Present [take (nat n) ds]\<rparr>"

definition demo_store :: store where
  "demo_store name =
     (if name = ''paperA'' then Inr (\<lambda>q n. Inr (demo_result [''a1'', ''a2''] [1 / 10, 3 / 10] n))
      else if name = ''paperB'' then Inr (\<lambda>q n. Inr (demo_result [''b1'', ''b2''] [1 / 20, 4 / 10] n))
      else if name = ''broken'' then Inr (\<lambda>q n. Inl (StoreFailure ''query failed''))
      else Inr (\<lambda>q n. Inr empty_result))"

definition demo_hit :: "string \<Rightarrow> string \<Rightarrow> real \<Rightarrow> Source" where
  "demo_hit fname i dv = Source_init fname i (''text of '' @ i) None dv"

text \<open>A splitter that cuts a text in two halves and drops a half that is blank, a
  splitter whose second part is blank, and two pages, the first 250 characters long.\<close>

definition halves_splitter :: splitter where
  "halves_splitter txt =
     filter (\<lambda>part. strip part \<noteq> [])
       [take (length txt div 2) txt, drop (length txt div 2) txt]"

definition demo_splitter :: splitter where
  "demo_splitter txt = [''a'', '' '', ''b'']"

definition demo_pages :: "page list" where
  "demo_pages =
     [\<lparr>page_num = [1], source = ''f'', page_text = replicate 250 (CHR ''a'')\<rparr>,
      \<lparr>page_num = [2], source = ''f'', page_text = ''b''\<rparr>]"

section \<open>Properties\<close>

subsection \<open>Global re-rank\<close>

lemma get_top_k_sources_take:
  "0 < k \<Longrightarrow> get_top_k_sources xs k = take (nat k) (sort_key distance xs)"
  by (simp add: get_top_k_sources_def slice_to_def)

lemma sorted_take_nth:
  assumes "sorted (map f ys)" and "Suc i < length (take n ys)"
  shows "f (take n ys ! i) \<le> f (take n ys ! Suc i)"
proof -
  have "sorted (map f (take n ys))"
    using assms(1) by (simp add: take_map [symmetric] sorted_wrt_take)
  then have "map f (take n ys) ! i \<le> map f (take n ys) ! Suc i"
    using assms(2) by (intro sorted_nth_mono) simp_all
  then show ?thesis
    using assms(2) by simp
qed

text \<open>
  Claim C1. For a positive \<open>k\<close>, \<open>get_top_k_sources\<close> returns the first \<open>k\<close> entries of a
  stable ascending sort of its input by distance: the result is the \<open>k\<close>-prefix of a list
  \<open>ys\<close> that is a permutation of the input, ascending in distance, and in which the
  records of each distance appear in their input order; adjacent results are in
  ascending distance; the records of each distance in the result are a prefix of the
  input's records of that distance; and the result has \<open>min k (length input)\<close> entries.
\<close>

theorem get_top_k_sources_stable_prefix:
  assumes "0 < k"
  shows "(\<exists>ys. mset ys = mset xs \<and> sorted (map distance ys) \<and>
               (\<forall>d. filter (\<lambda>s. distance s = d) ys = filter (\<lambda>s. distance s = d) xs) \<and>
               get_top_k_sources xs k = take (nat k) ys) \<and>
         (\<forall>i. Suc i < length (get_top_k_sources xs k) \<longrightarrow>
               distance (get_top_k_sources xs k ! i) \<le> distance (get_top_k_sources xs k ! Suc i)) \<and>
         (\<forall>d. prefix (filter (\<lambda>s. distance s = d) (get_top_k_sources xs k))
                      (filter (\<lambda>s. distance s = d) xs)) \<and>
         length (get_top_k_sources xs k) = min (nat k) (length xs)"
proof -
  let ?ys = "sort_key distance xs"
  have res: "get_top_k_sources xs k = take (nat k) ?ys"
    using assms by (rule get_top_k_sources_take)
  have srt: "sorted (map distance ?ys)"
    by (rule sorted_sort_key)
  have stab: "filter (\<lambda>s. distance s = d) ?ys = filter (\<lambda>s. distance s = d) xs" for d
    by (rule sort_key_stable)
  have first: "\<exists>ys. mset ys = mset xs \<and> sorted (map distance ys) \<and>
               (\<forall>d. filter (\<lambda>s. distance s = d) ys = filter (\<lambda>s. distance s = d) xs) \<and>
               get_top_k_sources xs k = take (nat k) ys"
    using res srt stab by (intro exI [of _ ?ys]) simp
  have adj: "distance (get_top_k_sources xs k ! i) \<le> distance (get_top_k_sources xs k ! Suc i)"
    if "Suc i < length (get_top_k_sources xs k)" for i
    using that srt unfolding res by (intro sorted_take_nth)
  have pre: "prefix (filter (\<lambda>s. distance s = d) (get_top_k_sources xs k))
                    (filter (\<lambda>s. distance s = d) xs)" for d
  proof -
    have "prefix (filter (\<lambda>s. distance s = d) (take (nat k) ?ys))
                 (filter (\<lambda>s. distance s = d) ?ys)"
      by (intro filter_mono_prefix take_is_prefix)
    then show ?thesis
      by (simp only: res stab)
  qed
  have len: "length (get_top_k_sources xs k) = min (nat k) (length xs)"
    by (simp add: res min.commute)
  from first adj pre len show ?thesis
    by blast
qed

lemma demo_top_k:
  "get_top_k_sources
     [demo_hit ''paperA'' ''a1'' (1 / 10), demo_hit ''paperA'' ''a2'' (3 / 10),
      demo_hit ''paperB'' ''b1'' (1 / 20), demo_hit ''paperB'' ''b2'' (4 / 10)] 3 =
   [demo_hit ''paperB'' ''b1'' (1 / 20), demo_hit ''paperA'' ''a1'' (1 / 10),
    demo_hit ''paperA'' ''a2'' (3 / 10)]"
  by code_simp

theorem get_top_k_sources_stable_prefix_witness:
  "0 < (3::int) \<and>
   get_top_k_sources
     [demo_hit ''paperA'' ''a1'' (1 / 10), demo_hit ''paperA'' ''a2'' (3 / 10),
      demo_hit ''paperB'' ''b1'' (1 / 20), demo_hit ''paperB'' ''b2'' (4 / 10)] 3 =
   [demo_hit ''paperB'' ''b1'' (1 / 20), demo_hit ''paperA'' ''a1'' (1 / 10),
    demo_hit ''paperA'' ''a2'' (3 / 10)] \<and>
   length (get_top_k_sources
     [demo_hit ''paperA'' ''a1'' (1 / 10), demo_hit ''paperA'' ''a2'' (3 / 10),
      demo_hit ''paperB'' ''b1'' (1 / 20), demo_hit ''paperB'' ''b2'' (4 / 10)] 3) =
   min (nat 3) (length
     [demo_hit ''paperA'' ''a1'' (1 / 10), demo_hit ''paperA'' ''a2'' (3 / 10),
      demo_hit ''paperB'' ''b1'' (1 / 20), demo_hit ''paperB'' ''b2'' (4 / 10)])"
proof -
  have pos: "0 < (3::int)"
    by simp
  from get_top_k_sources_stable_prefix [OF pos] demo_top_k pos show ?thesis
    by blast
qed

subsection \<open>Auxiliary facts about retrieval and flattening\<close>

lemma has_hits_iff: "has_hits res = (ids_row res \<noteq> [])"
  by (auto simp: has_hits_def ids_row_def empty_result_def split: field.splits list.splits)

lemma no_ids_iff: "no_ids res = (ids_row res = [])"
  by (auto simp: no_ids_def ids_row_def empty_result_def split: field.splits list.splits)

lemma set_update_subset: "set (AList.update k v al) \<subseteq> insert (k, v) (set al)"
  by (induction al) auto

lemma set_get_top_k_sources: "set (get_top_k_sources xs k) \<subseteq> set xs"
  by (auto simp: get_top_k_sources_def slice_to_def dest: in_set_takeD)

lemma get_top_k_sources_nonempty: "0 < k \<Longrightarrow> xs \<noteq> [] \<Longrightarrow> get_top_k_sources xs k \<noteq> []"
  by (cases xs) (auto simp: get_top_k_sources_def slice_to_def)

lemma snd_retrieve_top_k:
  "snd (retrieve_top_k db (Some qv) k name) =
     (case db name of Inl e \<Rightarrow> Inl e | Inr coll \<Rightarrow> coll qv (max 1 (min k 50)))"
  by (simp add: retrieve_top_k_def Let_def split: sum.splits)

lemma retrieve_all_entries:
  "retrieve_all db qv k names rbc = (ev, Inr out) \<Longrightarrow> (n, r) \<in> set out \<Longrightarrow>
   (n, r) \<in> set rbc \<or>
   (n \<in> set names \<and> snd (retrieve_top_k db (Some qv) k n) = Inr r \<and> has_hits r)"
proof (induction names arbitrary: rbc ev)
  case Nil
  then show ?case by simp
next
  case (Cons a names)
  obtain ev1 r1 where top: "retrieve_top_k db (Some qv) k a = (ev1, r1)"
    by (cases "retrieve_top_k db (Some qv) k a")
  with Cons.prems(1) obtain res where r1: "r1 = Inr res"
    by (cases r1) auto
  let ?rbc = "if has_hits res then AList.update a res rbc else rbc"
  obtain ev2 where rest: "retrieve_all db qv k names ?rbc = (ev2, Inr out)"
    using Cons.prems(1) top r1 by (auto split: prod.splits)
  from Cons.IH [OF rest Cons.prems(2)]
  consider "(n, r) \<in> set ?rbc"
    | "n \<in> set names" "snd (retrieve_top_k db (Some qv) k n) = Inr r" "has_hits r"
    by blast
  then show ?case
  proof cases
    case 1
    then have "(n, r) \<in> set rbc \<or> ((n, r) = (a, res) \<and> has_hits res)"
      using set_update_subset [of a res rbc] by (auto split: if_splits)
    then show ?thesis
      using top r1 by auto
  next
    case 2
    then show ?thesis by simp
  qed
qed

lemma snd_retrieve_all_Cons:
  "snd (retrieve_all db qv k (a # names) rbc) =
     (case snd (retrieve_top_k db (Some qv) k a) of
        Inl e \<Rightarrow> Inl e
      | Inr res \<Rightarrow>
          snd (retrieve_all db qv k names
                 (if has_hits res then AList.update a res rbc else rbc)))"
  by (simp split: prod.splits sum.splits)

lemma retrieve_all_raises:
  "n \<in> set names \<Longrightarrow> snd (retrieve_top_k db (Some qv) k n) = Inl e \<Longrightarrow>
   \<exists>e' n'. n' \<in> set names \<and> snd (retrieve_top_k db (Some qv) k n') = Inl e' \<and>
           snd (retrieve_all db qv k names rbc) = Inl e'"
proof (induction names arbitrary: rbc)
  case Nil
  then show ?case by simp
next
  case (Cons a names)
  obtain ev1 r1 where top: "retrieve_top_k db (Some qv) k a = (ev1, r1)"
    by (cases "retrieve_top_k db (Some qv) k a")
  show ?case
  proof (cases r1)
    case (Inl e1)
    then show ?thesis using top by auto
  next
    case (Inr res)
    with Cons.prems top have "n \<in> set names" by auto
    from Cons.IH [OF this Cons.prems(2), of "if has_hits res then AList.update a res rbc else rbc"]
    obtain e' n' where "n' \<in> set names" "snd (retrieve_top_k db (Some qv) k n') = Inl e'"
      "snd (retrieve_all db qv k names (if has_hits res then AList.update a res rbc else rbc)) = Inl e'"
      by blast
    then show ?thesis
      using top Inr by (intro exI [of _ e'] exI [of _ n']) (simp add: snd_retrieve_all_Cons del: retrieve_all.simps)
  qed
qed

lemma retrieve_all_no_hits:
  "(\<And>n. n \<in> set names \<Longrightarrow> \<exists>r. snd (retrieve_top_k db (Some qv) k n) = Inr r \<and> ids_row r = []) \<Longrightarrow>
   snd (retrieve_all db qv k names rbc) = Inr rbc"
proof (induction names arbitrary: rbc)
  case Nil
  then show ?case by simp
next
  case (Cons a names)
  from Cons.prems [of a] obtain r where r: "snd (retrieve_top_k db (Some qv) k a) = Inr r" "ids_row r = []"
    by auto
  have "snd (retrieve_all db qv k names rbc) = Inr rbc"
    using Cons.prems by (intro Cons.IH) auto
  then show ?case
    using r by (auto simp: has_hits_iff split: prod.splits sum.splits)
qed

lemma field_at_ids: "field_at key (ids r) i = Inr sid \<Longrightarrow> sid \<in> set (ids_row r)"
  by (auto simp: field_at_def ids_row_def nth_or_raise_def split: field.splits list.splits if_splits)

lemma metadata_Source_init: "metadata (Source_init fn i d m dv) \<noteq> None"
  by (simp add: Source_init_def split: option.splits)

lemma source_at_props:
  "source_at f r i = Inr s \<Longrightarrow> filename s = f \<and> id' s \<in> set (ids_row r) \<and> metadata s \<noteq> None"
proof -
  assume a: "source_at f r i = Inr s"
  then obtain sid d m dv where sid: "field_at ''ids'' (ids r) i = Inr sid"
    and s: "s = Source_init f sid d m dv"
    by (auto simp: source_at_def split: sum.splits)
  have "filename s = f" "id' s = sid"
    by (simp_all add: s Source_init_def)
  then show ?thesis
    using field_at_ids [OF sid] metadata_Source_init [of f sid d m dv] s by simp
qed

lemma sources_from_props:
  "sources_from f r js = Inr ss \<Longrightarrow> s \<in> set ss \<Longrightarrow>
   filename s = f \<and> id' s \<in> set (ids_row r) \<and> metadata s \<noteq> None"
  by (induction js arbitrary: ss) (auto split: sum.splits dest: source_at_props)

lemma sources_from_length: "sources_from f r js = Inr ss \<Longrightarrow> length ss = length js"
  by (induction js arbitrary: ss) (auto split: sum.splits)

lemma get_sources_props:
  "get_sources rbc = Inr srcs \<Longrightarrow> s \<in> set srcs \<Longrightarrow>
   \<exists>r. (filename s, r) \<in> set rbc \<and> id' s \<in> set (ids_row r) \<and> metadata s \<noteq> None"
proof (induction rbc arbitrary: srcs rule: get_sources.induct)
  case 1
  then show ?case by simp
next
  case (2 fname results rest)
  show ?case
  proof (cases "no_ids results")
    case True
    with 2 show ?thesis by fastforce
  next
    case False
    with "2.prems"(1) obtain ss ss' where
      ss: "sources_from fname results [0 ..< length (ids_row results)] = Inr ss"
      and ss': "get_sources rest = Inr ss'" and srcs: "srcs = ss @ ss'"
      by (auto split: sum.splits)
    from "2.prems"(2) srcs consider "s \<in> set ss" | "s \<in> set ss'" by auto
    then show ?thesis
    proof cases
      case 1
      from sources_from_props [OF ss 1] show ?thesis by auto
    next
      case 2
      from "2.IH"(2) [OF False ss ss' 2] show ?thesis by auto
    qed
  qed
qed

lemma get_sources_nonempty:
  "get_sources rbc = Inr srcs \<Longrightarrow> rbc \<noteq> [] \<Longrightarrow> \<forall>(n, r) \<in> set rbc. has_hits r \<Longrightarrow> srcs \<noteq> []"
proof (cases rbc)
  case Nil
  assume "rbc \<noteq> []" with Nil show ?thesis by simp
next
  case (Cons p rest)
  assume a: "get_sources rbc = Inr srcs" "\<forall>(n, r) \<in> set rbc. has_hits r"
  obtain f r where p: "p = (f, r)" by (cases p)
  with a Cons have hr: "ids_row r \<noteq> []" by (auto simp: has_hits_iff)
  with a Cons p obtain ss ss' where
      ss: "sources_from f r [0 ..< length (ids_row r)] = Inr ss" and srcs: "srcs = ss @ ss'"
    by (auto simp: no_ids_iff split: sum.splits)
  from sources_from_length [OF ss] hr srcs show ?thesis by auto
qed

subsection \<open>The example collaborators, evaluated\<close>

lemma demo_search:
  "snd (run_search_logic demo_encoder demo_store ''q'' ''3'' [''paperA'', ''paperB'']) =
   Inr (Results [demo_hit ''paperB'' ''b1'' (1 / 20), demo_hit ''paperA'' ''a1'' (1 / 10),
                 demo_hit ''paperA'' ''a2'' (3 / 10)])"
  by code_simp

lemma strip_blank: "strip ''  '' = []"
  by (simp add: strip_def isspace_def)

lemma strip_q: "strip ''q'' = ''q''"
  by (simp add: strip_def isspace_def)

lemma int_of_str_0: "int_of_str ''0'' = Some 0"
  by code_simp

lemma int_of_str_3: "int_of_str ''3'' = Some 3"
  by code_simp

lemma int_of_str_separator: "int_of_str [CHR 0x1C, CHR ''1''] = None"
  by code_simp

lemma filter_replicate_keep: "P x \<Longrightarrow> filter P (replicate n x) = replicate n x"
  by (induction n) simp_all

lemma int_of_str_digit_limit: "int_of_str (replicate 4301 (CHR ''1'')) = None"
proof -
  have n: "(4301::nat) = Suc 4300"
    by simp
  have s: "int_strip (replicate 4301 (CHR ''1'')) = replicate 4301 (CHR ''1'')"
    by (simp add: int_strip_def int_space_def dropWhile_replicate)
  have c: "replicate 4301 (CHR ''1'') = CHR ''1'' # replicate 4300 (CHR ''1'')"
    by (simp only: n replicate_Suc)
  have f: "filter (\<lambda>c. c \<noteq> CHR ''_'') (CHR ''1'' # replicate 4300 (CHR ''1'')) =
           CHR ''1'' # replicate 4300 (CHR ''1'')"
    by (simp add: filter_replicate_keep)
  have "int_of_str (replicate 4301 (CHR ''1'')) =
        (case CHR ''1'' # replicate 4300 (CHR ''1'') of
           [] \<Rightarrow> None
         | c # cs \<Rightarrow>
            (let body = (if c = CHR ''-'' \<or> c = CHR ''+'' then cs else c # cs)
             in if digits_ok body \<and>
                   length (filter (\<lambda>c. c \<noteq> CHR ''_'') body) \<le> max_str_digits
                then Some (if c = CHR ''-'' then - int (digits_value body) else int (digits_value body))
                else None))"
    unfolding int_of_str_def s by (simp only: c)
  also have "\<dots> = None"
    by (simp add: f max_str_digits_def del: filter.simps)
  finally show ?thesis .
qed

lemma demo_embed: "snd (embed_query demo_encoder (Some ''q'')) = Some [1]"
  by (simp add: embed_query_def strip_q demo_encoder_def)

lemma demo_get_sources:
  "get_sources [(''paperA'', demo_result [''a1'', ''a2''] [1 / 10, 3 / 10] 3)] =
   Inr [demo_hit ''paperA'' ''a1'' (1 / 10), demo_hit ''paperA'' ''a2'' (3 / 10)]"
  by code_simp

lemma demo_empty_reply:
  "\<forall>name \<in> set [''x'', ''y'']. \<exists>res. snd (retrieve_top_k demo_store (Some [1]) 3 name) = Inr res \<and>
                              ids_row res = []"
  by (simp add: retrieve_top_k_def demo_store_def ids_row_def empty_result_def)

lemma demo_broken: "snd (retrieve_top_k demo_store (Some [1]) 3 ''broken'') = Inl (StoreFailure ''query failed'')"
  by (simp add: retrieve_top_k_def demo_store_def)

subsection \<open>The search, by its results\<close>

text \<open>The search after the validations, in terms of the results only.\<close>

lemma snd_search_validated:
  "snd (search_validated enc db q k sel) =
     (case snd (embed_query enc (Some q)) of
        None \<Rightarrow> Inr (Error embed_error)
      | Some qv \<Rightarrow>
          (case snd (retrieve_all db qv k sel []) of
             Inl e \<Rightarrow> Inl e
           | Inr rbc \<Rightarrow>
               (if rbc = [] then Inr (Warning no_results_warning)
                else (case get_sources rbc of
                        Inl e \<Rightarrow> Inl e
                      | Inr flat \<Rightarrow>
                          (if get_top_k_sources flat k = [] then Inr (Info no_matches_info)
                           else Inr (Results (get_top_k_sources flat k)))))))"
  by (simp add: search_validated_def Let_def split: prod.splits option.splits sum.splits)

lemma run_search_logic_Results:
  assumes "snd (run_search_logic enc db q num_k sel) = Inr (Results hits)"
  obtains k qv rbc flat where "int_of_str num_k = Some k" "0 < k"
    "snd (embed_query enc (Some q)) = Some qv"
    "snd (retrieve_all db qv k sel []) = Inr rbc"
    "get_sources rbc = Inr flat" "hits = get_top_k_sources flat k"
  using assms
  by (auto simp: run_search_logic_def snd_search_validated
           split: if_splits option.splits sum.splits)

lemma retrieve_all_entries_snd:
  assumes "snd (retrieve_all db qv k names rbc) = Inr out" "(n, r) \<in> set out"
  shows "(n, r) \<in> set rbc \<or>
   (n \<in> set names \<and> snd (retrieve_top_k db (Some qv) k n) = Inr r \<and> has_hits r)"
proof -
  obtain ev where "retrieve_all db qv k names rbc = (ev, Inr out)"
    using assms(1) by (cases "retrieve_all db qv k names rbc") simp
  from retrieve_all_entries [OF this assms(2)] show ?thesis .
qed

lemma retrieve_all_has_hits:
  assumes "snd (retrieve_all db qv k names []) = Inr rbc"
  shows "\<forall>(n, r) \<in> set rbc. has_hits r"
  using retrieve_all_entries_snd [OF assms] by auto

subsection \<open>Input validation\<close>

text \<open>
  Claim C5. \<open>run_search_logic\<close> validates in a fixed order, and the first failing check
  decides the outcome without calling any collaborator: an empty selection gives the
  selection warning whatever the query and the count are; with a selection, a query that
  is blank after trimming gives the query warning whatever the count is; with a selection
  and a query, a count that is not a positive integer gives the number warning; otherwise
  the search proceeds. In particular the empty selection with the empty query and the
  count \<open>5\<close> gives the selection warning, which differs from the query warning.
\<close>

theorem run_search_logic_validation_order:
  "(sel = [] \<longrightarrow> run_search_logic enc db q num_k sel = ([], Inr (Warning select_warning))) \<and>
   (sel \<noteq> [] \<and> strip q = [] \<longrightarrow>
      run_search_logic enc db q num_k sel = ([], Inr (Warning query_warning))) \<and>
   (sel \<noteq> [] \<and> strip q \<noteq> [] \<and> (\<forall>k. int_of_str num_k = Some k \<longrightarrow> k \<le> 0) \<longrightarrow>
      run_search_logic enc db q num_k sel = ([], Inr (Warning number_warning))) \<and>
   (sel \<noteq> [] \<and> strip q \<noteq> [] \<and> int_of_str num_k = Some k \<and> 0 < k \<longrightarrow>
      run_search_logic enc db q num_k sel = search_validated enc db q k sel) \<and>
   run_search_logic enc db [] ''5'' [] = ([], Inr (Warning select_warning)) \<and>
   select_warning \<noteq> query_warning"
  by (auto simp: run_search_logic_def select_warning_def query_warning_def split: option.splits)

theorem run_search_logic_validation_order_witness:
  "run_search_logic demo_encoder demo_store [] ''5'' [] = ([], Inr (Warning select_warning)) \<and>
   run_search_logic demo_encoder demo_store ''  '' ''5'' [''paperA''] =
     ([], Inr (Warning query_warning)) \<and>
   run_search_logic demo_encoder demo_store ''q'' ''0'' [''paperA''] =
     ([], Inr (Warning number_warning)) \<and>
   run_search_logic demo_encoder demo_store ''q'' [CHR 0x1C, CHR ''1''] [''paperA''] =
     ([], Inr (Warning number_warning)) \<and>
   run_search_logic demo_encoder demo_store ''q'' (replicate 4301 (CHR ''1'')) [''paperA''] =
     ([], Inr (Warning number_warning)) \<and>
   run_search_logic demo_encoder demo_store ''q'' ''3'' [''paperA''] =
     search_validated demo_encoder demo_store ''q'' 3 [''paperA'']"
  using run_search_logic_validation_order [of "[]" demo_encoder demo_store "[]" "''5''" 5]
    run_search_logic_validation_order [of "[''paperA'']" demo_encoder demo_store "''  ''" "''5''" 5]
    run_search_logic_validation_order [of "[''paperA'']" demo_encoder demo_store "''q''" "''0''" 0]
    run_search_logic_validation_order [of "[''paperA'']" demo_encoder demo_store "''q''"
      "[CHR 0x1C, CHR ''1'']" 0]
    run_search_logic_validation_order [of "[''paperA'']" demo_encoder demo_store "''q''"
      "replicate 4301 (CHR ''1'')" 0]
    run_search_logic_validation_order [of "[''paperA'']" demo_encoder demo_store "''q''" "''3''" 3]
  by (simp add: strip_blank strip_q int_of_str_0 int_of_str_3 int_of_str_separator
        int_of_str_digit_limit)

subsection \<open>Embedding the query\<close>

text \<open>
  Claim C7. For a query that is \<^verbatim>\<open>None\<close>, empty or blank after trimming, \<open>embed_query\<close>
  returns no vector and the list of calls to the model is empty; and when the model
  raises on the trimmed query, \<open>embed_query\<close> returns no vector instead of the exception.
\<close>

theorem embed_query_no_vector:
  "embed_query enc None = ([], None) \<and>
   (strip s = [] \<longrightarrow> embed_query enc (Some s) = ([], None)) \<and>
   (enc (strip s) = Inl e \<longrightarrow> snd (embed_query enc (Some s)) = None)"
  by (simp add: embed_query_def strip_def Let_def)

theorem embed_query_no_vector_witness:
  "strip ''  '' = [] \<and> embed_query demo_encoder (Some ''  '') = ([], None) \<and>
   failing_encoder (strip ''q'') = Inl (ModelFailure ''model unavailable'') \<and>
   snd (embed_query failing_encoder (Some ''q'')) = None"
  using embed_query_no_vector [of demo_encoder "''  ''"]
    embed_query_no_vector [of failing_encoder "''q''" "ModelFailure ''model unavailable''"]
  by (simp add: strip_blank failing_encoder_def)

subsection \<open>The per-collection query\<close>

text \<open>
  Claim C8. Every query that \<open>retrieve_top_k\<close> issues to the store carries the result
  count \<open>max 1 (min k 50)\<close>, which lies between 1 and 50; and when the collection can be
  fetched and an embedding is given, exactly that query is issued.
\<close>

theorem retrieve_top_k_clamps_k:
  "(Query c q n \<in> set (fst (retrieve_top_k db qe k name)) \<longrightarrow>
      n = max 1 (min k 50) \<and> 1 \<le> n \<and> n \<le> 50) \<and>
   (db name = Inr coll \<longrightarrow>
      retrieve_top_k db (Some qv) k name =
        ([GetOrCreate name, Query name qv (max 1 (min k 50))], coll qv (max 1 (min k 50))))"
  by (auto simp: retrieve_top_k_def Let_def split: sum.splits option.splits)

theorem retrieve_top_k_clamps_k_witness:
  "Query ''paperA'' [1] 50 \<in> set (fst (retrieve_top_k demo_store (Some [1]) 100 ''paperA'')) \<and>
   (50::int) = max 1 (min 100 50) \<and>
   fst (retrieve_top_k demo_store (Some [1]) (- 3) ''paperA'') =
     [GetOrCreate ''paperA'', Query ''paperA'' [1] 1]"
  using retrieve_top_k_clamps_k [of "''paperA''" "[1]" 50 demo_store "Some [1]" 100 "''paperA''"]
    retrieve_top_k_clamps_k [of "''paperA''" "[1]" 50 demo_store "Some [1]" "- 3" "''paperA''"
      "\<lambda>q n. Inr (demo_result [''a1'', ''a2''] [1 / 10, 3 / 10] n)" "[1]"]
  by (simp add: demo_store_def retrieve_top_k_def)

subsection \<open>Merging\<close>

text \<open>
  Claim C9. When a search returns ranked results, every result carries the name of a
  selected collection, and its id is among the ids that the query of that collection
  returned in this search (for the embedding of the query and the parsed count): the
  flattening and the re-rank introduce no id.
\<close>

theorem search_ids_come_from_collections:
  assumes "snd (run_search_logic enc db q num_k sel) = Inr (Results hits)"
  shows "\<exists>qv k. snd (embed_query enc (Some q)) = Some qv \<and> int_of_str num_k = Some k \<and>
           (\<forall>h \<in> set hits. filename h \<in> set sel \<and>
              (\<exists>res. snd (retrieve_top_k db (Some qv) k (filename h)) = Inr res \<and>
                     id' h \<in> set (ids_row res)))"
proof -
  from assms obtain k qv rbc flat where k: "int_of_str num_k = Some k"
    and qv: "snd (embed_query enc (Some q)) = Some qv"
    and rbc: "snd (retrieve_all db qv k sel []) = Inr rbc"
    and flat: "get_sources rbc = Inr flat" and hits: "hits = get_top_k_sources flat k"
    by (rule run_search_logic_Results)
  have "filename h \<in> set sel \<and>
        (\<exists>res. snd (retrieve_top_k db (Some qv) k (filename h)) = Inr res \<and>
               id' h \<in> set (ids_row res))" if "h \<in> set hits" for h
  proof -
    from that hits have "h \<in> set flat"
      using set_get_top_k_sources by blast
    from get_sources_props [OF flat this] obtain r where
      r: "(filename h, r) \<in> set rbc" and i: "id' h \<in> set (ids_row r)"
      by blast
    from retrieve_all_entries_snd [OF rbc r] i show ?thesis
      by auto
  qed
  with k qv show ?thesis
    by blast
qed

theorem search_ids_come_from_collections_witness:
  "snd (run_search_logic demo_encoder demo_store ''q'' ''3'' [''paperA'', ''paperB'']) =
     Inr (Results [demo_hit ''paperB'' ''b1'' (1 / 20), demo_hit ''paperA'' ''a1'' (1 / 10),
                   demo_hit ''paperA'' ''a2'' (3 / 10)]) \<and>
   (\<exists>qv k. snd (embed_query demo_encoder (Some ''q'')) = Some qv \<and> int_of_str ''3'' = Some k \<and>
      (\<exists>res. snd (retrieve_top_k demo_store (Some qv) k ''paperB'') = Inr res \<and>
             ''b1'' \<in> set (ids_row res)) \<and>
      (\<exists>res. snd (retrieve_top_k demo_store (Some qv) k ''paperA'') = Inr res \<and>
             ''a1'' \<in> set (ids_row res)) \<and>
      (\<exists>res. snd (retrieve_top_k demo_store (Some qv) k ''paperA'') = Inr res \<and>
             ''a2'' \<in> set (ids_row res)))"
  using search_ids_come_from_collections [OF demo_search] demo_search
  by (simp add: demo_hit_def Source_init_def)

text \<open>
  Claim C10. \<open>Source_init\<close> stores the empty mapping when the metadata it is given is
  \<^verbatim>\<open>None\<close> or empty, and the given mapping otherwise; so the metadata of every record
  that \<open>get_sources\<close> builds, and of every result a search returns, is a mapping and never
  \<^verbatim>\<open>None\<close>.
\<close>

theorem source_metadata_never_none:
  "metadata (Source_init fn i d None dv) = Some [] \<and>
   metadata (Source_init fn i d (Some []) dv) = Some [] \<and>
   (md \<noteq> [] \<longrightarrow> metadata (Source_init fn i d (Some md) dv) = Some md) \<and>
   (get_sources rbc = Inr srcs \<longrightarrow> (\<forall>s \<in> set srcs. metadata s \<noteq> None)) \<and>
   (snd (run_search_logic enc db q num_k sel) = Inr (Results hits) \<longrightarrow>
      (\<forall>h \<in> set hits. metadata h \<noteq> None))"
proof -
  have a: "\<forall>s \<in> set srcs. metadata s \<noteq> None" if "get_sources rbc = Inr srcs" for rbc srcs
    using get_sources_props [OF that] by blast
  have b: "\<forall>h \<in> set hits. metadata h \<noteq> None"
    if "snd (run_search_logic enc db q num_k sel) = Inr (Results hits)"
  proof -
    from that obtain k rbc' flat where flat: "get_sources rbc' = Inr flat"
      and hits: "hits = get_top_k_sources flat k"
      by (rule run_search_logic_Results)
    from a [OF flat] hits show ?thesis
      using set_get_top_k_sources by blast
  qed
  show ?thesis
    using a b by (simp add: Source_init_def)
qed

theorem source_metadata_never_none_witness:
  "[(''source'', ''paperA'')] \<noteq> [] \<and>
   metadata (Source_init ''paperA'' ''a1'' ''text'' (Some [(''source'', ''paperA'')]) 0) =
     Some [(''source'', ''paperA'')] \<and>
   None \<notin> metadata ` set [demo_hit ''paperA'' ''a1'' (1 / 10), demo_hit ''paperA'' ''a2'' (3 / 10)] \<and>
   None \<notin> metadata ` set [demo_hit ''paperB'' ''b1'' (1 / 20), demo_hit ''paperA'' ''a1'' (1 / 10),
                            demo_hit ''paperA'' ''a2'' (3 / 10)]"
proof -
  note inst = source_metadata_never_none [of "''paperA''" "''a1''" "''text''" 0
      "[(''source'', ''paperA'')]"
      "[(''paperA'', demo_result [''a1'', ''a2''] [1 / 10, 3 / 10] 3)]"
      "[demo_hit ''paperA'' ''a1'' (1 / 10), demo_hit ''paperA'' ''a2'' (3 / 10)]"
      demo_encoder demo_store "''q''" "''3''" "[''paperA'', ''paperB'']"
      "[demo_hit ''paperB'' ''b1'' (1 / 20), demo_hit ''paperA'' ''a1'' (1 / 10),
        demo_hit ''paperA'' ''a2'' (3 / 10)]"]
  have ne: "[(''source'', ''paperA'')] \<noteq> []"
    by simp
  have given: "metadata (Source_init ''paperA'' ''a1'' ''text'' (Some [(''source'', ''paperA'')]) 0) =
     Some [(''source'', ''paperA'')]"
    using inst [THEN conjunct2, THEN conjunct2, THEN conjunct1] ne by (rule mp)
  have flat: "None \<notin> metadata ` set [demo_hit ''paperA'' ''a1'' (1 / 10),
                                      demo_hit ''paperA'' ''a2'' (3 / 10)]"
    using inst [THEN conjunct2, THEN conjunct2, THEN conjunct2, THEN conjunct1, THEN mp,
        OF demo_get_sources]
    by auto
  have hits: "None \<notin> metadata ` set [demo_hit ''paperB'' ''b1'' (1 / 20),
      demo_hit ''paperA'' ''a1'' (1 / 10), demo_hit ''paperA'' ''a2'' (3 / 10)]"
    using inst [THEN conjunct2, THEN conjunct2, THEN conjunct2, THEN conjunct2, THEN mp,
        OF demo_search]
    by auto
  from ne given flat hits show ?thesis
    by (intro conjI)
qed

subsection \<open>Classifying the outcome\<close>

text \<open>
  Claim C6. When the inputs are valid, the query embeds, and the query of every selected
  collection returns without candidates, the search returns the warning that no results
  came from the selected sources; and no search returns the information outcome, so it
  is never the outcome of the case where all collections are empty.
\<close>

theorem empty_collections_give_warning:
  "(sel \<noteq> [] \<and> strip q \<noteq> [] \<and> int_of_str num_k = Some k \<and> 0 < k \<and>
    snd (embed_query enc (Some q)) = Some qv \<and>
    (\<forall>name \<in> set sel. \<exists>res. snd (retrieve_top_k db (Some qv) k name) = Inr res \<and>
                              ids_row res = []) \<longrightarrow>
    snd (run_search_logic enc db q num_k sel) = Inr (Warning no_results_warning)) \<and>
   snd (run_search_logic enc db q num_k sel) \<noteq> Inr (Info m)"
proof -
  have w: "snd (run_search_logic enc db q num_k sel) = Inr (Warning no_results_warning)"
    if "sel \<noteq> []" "strip q \<noteq> []" "int_of_str num_k = Some k" "0 < k"
      "snd (embed_query enc (Some q)) = Some qv"
      "\<forall>name \<in> set sel. \<exists>res. snd (retrieve_top_k db (Some qv) k name) = Inr res \<and>
                              ids_row res = []"
  proof -
    have "snd (retrieve_all db qv k sel []) = Inr []"
      using that(6) by (intro retrieve_all_no_hits) blast
    then show ?thesis
      using that(1-5) by (simp add: run_search_logic_def snd_search_validated)
  qed
  have i: "snd (run_search_logic enc db q num_k sel) \<noteq> Inr (Info m)"
  proof
    assume "snd (run_search_logic enc db q num_k sel) = Inr (Info m)"
    then obtain k' qv' rbc flat where nk: "\<not> k' \<le> 0"
      and rbc: "snd (retrieve_all db qv' k' sel []) = Inr rbc" and ne: "rbc \<noteq> []"
      and flat: "get_sources rbc = Inr flat" and emp: "get_top_k_sources flat k' = []"
      by (auto simp: run_search_logic_def snd_search_validated
               split: if_splits option.splits sum.splits)
    from get_sources_nonempty [OF flat ne retrieve_all_has_hits [OF rbc]]
    have "flat \<noteq> []" .
    moreover from nk have "0 < k'"
      by simp
    ultimately show False
      using get_top_k_sources_nonempty [of k' flat] emp by simp
  qed
  from w i show ?thesis
    by blast
qed

theorem empty_collections_give_warning_witness:
  "snd (run_search_logic demo_encoder demo_store ''q'' ''3'' [''x'', ''y'']) =
     Inr (Warning no_results_warning)"
  using empty_collections_give_warning [of "[''x'', ''y'']" "''q''" "''3''" 3 demo_encoder "[1]"
      demo_store] demo_empty_reply demo_embed
  by (simp add: strip_q int_of_str_3)

subsection \<open>A collection whose query fails\<close>

text \<open>
  Claim C2. A collection whose query raises is to count as empty, and the search is to
  return the merged results of the other collections. The code does not do this: with
  the collection \<open>broken\<close>, whose query raises, selected next to \<open>paperB\<close>, the search
  ends with the exception of the store and returns none of the four kinds of outcome
  that the docstring of \<^verbatim>\<open>run_search_logic\<close> promises, although \<open>paperB\<close> alone yields two
  results. The calls of the store in \<^verbatim>\<open>retrieve_top_k\<close> are not guarded, unlike the call of
  the embedding model in \<^verbatim>\<open>embed_query\<close> and the calls of the store at ingestion.
\<close>

theorem failing_collection_aborts_search:
  "snd (run_search_logic demo_encoder demo_store ''q'' ''3'' [''broken'', ''paperB'']) =
     Inl (StoreFailure ''query failed'') \<and>
   snd (run_search_logic demo_encoder demo_store ''q'' ''3'' [''paperB'']) =
     Inr (Results [demo_hit ''paperB'' ''b1'' (1 / 20), demo_hit ''paperB'' ''b2'' (4 / 10)])"
  by code_simp

text \<open>
  The defect is not particular to this input: whenever the inputs are valid, the query
  embeds, and fetching or querying some selected collection raises, the search ends
  with an exception raised by a selected collection.
\<close>

lemma store_failure_propagates:
  assumes "sel \<noteq> []" and "strip q \<noteq> []" and "int_of_str num_k = Some k" and "0 < k"
    and "snd (embed_query enc (Some q)) = Some qv"
    and "name \<in> set sel" and "snd (retrieve_top_k db (Some qv) k name) = Inl e"
  shows "\<exists>e' name'. name' \<in> set sel \<and> snd (retrieve_top_k db (Some qv) k name') = Inl e' \<and>
           snd (run_search_logic enc db q num_k sel) = Inl e'"
proof -
  from retrieve_all_raises [OF assms(6,7), of "[]"] obtain e' name' where
    "name' \<in> set sel" "snd (retrieve_top_k db (Some qv) k name') = Inl e'"
    "snd (retrieve_all db qv k sel []) = Inl e'"
    by blast
  then show ?thesis
    using assms(1-5) by (auto simp: run_search_logic_def snd_search_validated)
qed

lemma store_failure_propagates_example:
  "\<exists>e' name'. name' \<in> set [''paperA'', ''broken''] \<and>
     snd (retrieve_top_k demo_store (Some [1]) 3 name') = Inl e' \<and>
     snd (run_search_logic demo_encoder demo_store ''q'' ''3'' [''paperA'', ''broken'']) = Inl e'"
  using store_failure_propagates [of "[''paperA'', ''broken'']" "''q''" "''3''" 3 demo_encoder "[1]"
      "''broken''" demo_store "StoreFailure ''query failed''"] demo_broken demo_embed
  by (simp add: strip_q int_of_str_3)

subsection \<open>Chunk ids are injective in the page number and the index\<close>


lemma digit_char_in_digits: "digit_char n \<in> set ''0123456789''"
proof -
  have "n mod 10 < length ''0123456789''"
    by simp
  then show ?thesis
    unfolding digit_char_def by (rule nth_mem)
qed

lemma str_nat_digits: "set (str_nat n) \<subseteq> set ''0123456789''"
proof (induction n rule: str_nat.induct)
  case (1 n)
  show ?case
  proof (cases "n < 10")
    case True
    then show ?thesis
      using digit_char_in_digits [of n] by (subst str_nat.simps) simp
  next
    case False
    with 1 show ?thesis
      using digit_char_in_digits [of "n mod 10"] by (subst str_nat.simps) simp
  qed
qed



lemma underscore_not_digit: "CHR ''_'' \<notin> set ''0123456789''" "CHR ''-'' \<notin> set ''0123456789''"
  by simp_all


lemma str_nat_no_underscore: "CHR ''_'' \<notin> set (str_nat n)"
  using str_nat_digits underscore_not_digit(1) by auto






subsection \<open>The chunks of a page list\<close>

lemma chunk_parts_ids:
  "chunk_parts pages i n f ejs = Inr cs \<Longrightarrow>
   map chunk_id cs = map (make_chunk_id f n) (map fst (filter (\<lambda>(j, part). strip part \<noteq> []) ejs))"
proof (induction ejs arbitrary: cs)
  case Nil
  then show ?case by simp
next
  case (Cons a ejs)
  obtain j part where a: "a = (j, part)" by (cases a)
  show ?case
  proof (cases "strip part = []")
    case True
    with Cons a show ?thesis by simp
  next
    case False
    with Cons.prems a obtain cs' where "chunk_parts pages i n f ejs = Inr cs'"
      and "map chunk_id cs = make_chunk_id f n j # map chunk_id cs'"
      by (auto split: sum.splits if_splits)
    with Cons.IH [of cs'] False a show ?thesis by simp
  qed
qed

lemma map_snd_filter_enumerate:
  "map snd (filter (\<lambda>(j, part). P part) (List.enumerate n xs)) = filter P xs"
  by (induction xs arbitrary: n) auto

lemma chunk_parts_texts:
  "chunk_parts pages i n f ejs = Inr cs \<Longrightarrow>
   map chunk_text cs = map snd (filter (\<lambda>(j, part). strip part \<noteq> []) ejs)"
proof (induction ejs arbitrary: cs)
  case Nil
  then show ?case by simp
next
  case (Cons a ejs)
  obtain j part where a: "a = (j, part)" by (cases a)
  show ?case
  proof (cases "strip part = []")
    case True
    with Cons a show ?thesis by simp
  next
    case False
    with Cons.prems a obtain cs' where "chunk_parts pages i n f ejs = Inr cs'"
      and "map chunk_text cs = part # map chunk_text cs'"
      by (auto split: sum.splits if_splits)
    with Cons.IH [of cs'] False a show ?thesis by simp
  qed
qed

lemma chunk_parts_total:
  assumes "0 < i \<Longrightarrow> \<exists>m. first_page_num (pages ! (i - 1)) = Inr m"
  shows "\<exists>cs. chunk_parts pages i n f ejs = Inr cs"
proof (induction ejs)
  case Nil
  then show ?case by simp
next
  case (Cons a ejs)
  obtain j part where a: "a = (j, part)" by (cases a)
  from Cons obtain cs where cs: "chunk_parts pages i n f ejs = Inr cs" by blast
  show ?case
  proof (cases "0 < i \<and> j = 0")
    case True
    with assms obtain m where "first_page_num (pages ! (i - 1)) = Inr m" by blast
    with True cs a show ?thesis by simp
  next
    case False
    with cs a show ?thesis by auto
  qed
qed

lemma page_chunks_result:
  assumes "first_page_num (pages ! i) = Inr n"
    and "0 < i \<Longrightarrow> \<exists>m. first_page_num (pages ! (i - 1)) = Inr m"
  shows "\<exists>cs. page_chunks s pages i = ([text_to_split pages i], Inr cs) \<and>
              map chunk_id cs = page_chunk_ids s pages i \<and>
              map chunk_text cs =
                filter (\<lambda>part. strip part \<noteq> []) (s (text_to_split pages i))"
proof -
  let ?ejs = "List.enumerate 0 (s (text_to_split pages i))"
  from chunk_parts_total [OF assms(2)] obtain cs where
    cs: "chunk_parts pages i n (source (pages ! i)) ?ejs = Inr cs"
    by blast
  from chunk_parts_ids [OF cs] have ids: "map chunk_id cs = page_chunk_ids s pages i"
    by (simp add: page_chunk_ids_def nonblank_positions_def assms(1))
  from chunk_parts_texts [OF cs]
  have texts: "map chunk_text cs = filter (\<lambda>part. strip part \<noteq> []) (s (text_to_split pages i))"
    by (simp only: map_snd_filter_enumerate)
  from cs ids texts assms(1) show ?thesis
    by (simp add: page_chunks_def)
qed

lemma chunk_pages_result:
  assumes "\<And>i. i < length pages \<Longrightarrow> \<exists>n. first_page_num (pages ! i) = Inr n"
    and "\<And>i. i \<in> set idxs \<Longrightarrow> i < length pages"
  shows "\<exists>cs. chunk_pages s pages idxs = (map (text_to_split pages) idxs, Inr cs) \<and>
              map chunk_id cs = concat (map (page_chunk_ids s pages) idxs) \<and>
              map chunk_text cs =
                concat (map (\<lambda>t. filter (\<lambda>part. strip part \<noteq> []) (s t))
                          (map (text_to_split pages) idxs))"
  using assms(2)
proof (induction idxs)
  case Nil
  then show ?case by simp
next
  case (Cons i idxs)
  then have i: "i < length pages" by simp
  then obtain n where n: "first_page_num (pages ! i) = Inr n"
    using assms(1) by blast
  have "\<exists>m. first_page_num (pages ! (i - 1)) = Inr m"
    using assms(1) [of "i - 1"] i by simp
  with page_chunks_result [OF n] obtain cs where
    cs: "page_chunks s pages i = ([text_to_split pages i], Inr cs)"
        "map chunk_id cs = page_chunk_ids s pages i"
        "map chunk_text cs = filter (\<lambda>part. strip part \<noteq> []) (s (text_to_split pages i))"
    by blast
  from Cons obtain cs' where
    cs': "chunk_pages s pages idxs = (map (text_to_split pages) idxs, Inr cs')"
         "map chunk_id cs' = concat (map (page_chunk_ids s pages) idxs)"
         "map chunk_text cs' =
            concat (map (\<lambda>t. filter (\<lambda>part. strip part \<noteq> []) (s t))
                      (map (text_to_split pages) idxs))"
    by auto
  from cs cs' show ?case by simp
qed







subsection \<open>The page list of a document\<close>

lemma map_snd_filter_zip:
  "length xs = length ys \<Longrightarrow>
   map snd (filter (\<lambda>(a, b). P b) (zip xs ys)) = filter P ys"
  by (induction xs ys rule: list_induct2) auto


lemma load_pdf_pages_texts:
  "map page_text (load_pdf_pages fname raws) = filter (\<lambda>t. t \<noteq> []) (map clean_text raws)"
proof -
  have "map page_text (load_pdf_pages fname raws) =
        map snd (filter (\<lambda>(i, cleaned). cleaned \<noteq> [])
                   (zip [0 ..< length raws] (map clean_text raws)))"
    by (simp add: load_pdf_pages_def case_prod_unfold comp_def)
  also have "\<dots> = filter (\<lambda>t. t \<noteq> []) (map clean_text raws)"
    by (rule map_snd_filter_zip) simp
  finally show ?thesis .
qed





lemma load_pdf_pages_page_num: "p \<in> set (load_pdf_pages fname raws) \<Longrightarrow> page_num p \<noteq> []"
  by (auto simp: load_pdf_pages_def)

lemma split_pages_result:
  assumes "\<And>p. p \<in> set pages \<Longrightarrow> page_num p \<noteq> []"
  shows "\<exists>chunks. split_pages_with_metadata s pages =
                    (map (text_to_split pages) [0 ..< length pages], Inr chunks) \<and>
                  map chunk_id chunks =
                    concat (map (page_chunk_ids s pages) [0 ..< length pages]) \<and>
                  map chunk_text chunks =
                    concat (map (\<lambda>t. filter (\<lambda>part. strip part \<noteq> []) (s t))
                              (map (text_to_split pages) [0 ..< length pages]))"
proof -
  have "\<exists>n. first_page_num (pages ! i) = Inr n" if "i < length pages" for i
  proof -
    from that have "page_num (pages ! i) \<noteq> []"
      by (intro assms) simp
    then show ?thesis
      by (cases "page_num (pages ! i)") (simp_all add: first_page_num_def)
  qed
  then show ?thesis
    unfolding split_pages_with_metadata_def by (intro chunk_pages_result) simp_all
qed

lemma text_to_split_explicit:
  "map (text_to_split pages) [0 ..< length pages] =
   map (\<lambda>i. if i = 0 then page_text (pages ! 0)
            else drop (length (page_text (pages ! (i - 1))) - 300) (page_text (pages ! (i - 1))) @
                 '' '' @ page_text (pages ! i))
     [0 ..< length pages]"
  by (simp add: text_to_split_def slice_last_def)

lemma demo_pages_texts:
  "map (text_to_split demo_pages) [0 ..< length demo_pages] =
     [replicate 250 (CHR ''a''), replicate 250 (CHR ''a'') @ '' b'']"
proof -
  have "[0 ..< length demo_pages] = [0, 1]"
    by (simp add: demo_pages_def upt_rec)
  then show ?thesis
    by (simp add: text_to_split_def slice_last_def demo_pages_def)
qed

lemma demo_chunks:
  "snd (split_pages_with_metadata demo_splitter (load_pdf_pages ''f'' [''one''])) =
     Inr [\<lparr>chunk_page_num = [1], chunk_source = ''f'', chunk_id = ''f_p1_c0'', chunk_text = ''a''\<rparr>,
          \<lparr>chunk_page_num = [1], chunk_source = ''f'', chunk_id = ''f_p1_c2'', chunk_text = ''b''\<rparr>]"
  by code_simp



subsection \<open>The text handed to the splitter\<close>

text \<open>
  Claim C3 says that the text carried over from the preceding page is its last \<open>overlap\<close>
  characters, where \<open>overlap\<close> is the configured chunk overlap, 200. It is not: after a
  page of 250 characters the whole page is carried over, 250 characters and not the
  last 200.
\<close>

theorem carry_is_300_not_overlap:
  "text_to_split demo_pages 1 = replicate 250 (CHR ''a'') @ '' b'' \<and>
   slice_last chunk_overlap (page_text (demo_pages ! 0)) @ '' '' @ page_text (demo_pages ! 1) =
     replicate 200 (CHR ''a'') @ '' b'' \<and>
   text_to_split demo_pages 1 \<noteq>
     slice_last chunk_overlap (page_text (demo_pages ! 0)) @ '' '' @ page_text (demo_pages ! 1) \<and>
   fst (split_pages_with_metadata halves_splitter demo_pages) =
     [replicate 250 (CHR ''a''), replicate 250 (CHR ''a'') @ '' b'']"
proof -
  have pn: "page_num p \<noteq> []" if "p \<in> set demo_pages" for p
    using that by (auto simp: demo_pages_def)
  from split_pages_result [of demo_pages halves_splitter, OF pn]
  have "fst (split_pages_with_metadata halves_splitter demo_pages) =
        map (text_to_split demo_pages) [0 ..< length demo_pages]"
    by auto
  then show ?thesis
    by (simp add: demo_pages_texts)
       (simp add: text_to_split_def demo_pages_def slice_last_def chunk_overlap_def)
qed

text \<open>
  Claim C3, as the code has it. When every page has a page number, as every page of a
  document has, the chunker calls the splitter once for every page, in page order. The
  text it hands over for the first page is the text of that page, unmodified. The text
  it hands over for a page at index \<open>i > 0\<close> is the last 300 characters of the text of the
  preceding entry of the page list (all of it when it has at most 300 characters), one
  space, and the text of the page itself; the number 300 is fixed and does not depend on
  the chunk overlap. The chunks are made, in this order, of the parts that the splitter
  returns for these texts and that are not blank. The page list of a document holds the
  cleaned texts of its pages that are not empty, in document order, so the preceding
  entry is the nearest preceding non-empty page.
\<close>

theorem splitter_receives_300_carry:
  "((\<forall>p \<in> set pages. page_num p \<noteq> []) \<longrightarrow>
      fst (split_pages_with_metadata s pages) =
        map (\<lambda>i. if i = 0 then page_text (pages ! 0)
                 else drop (length (page_text (pages ! (i - 1))) - 300)
                        (page_text (pages ! (i - 1))) @
                      '' '' @ page_text (pages ! i))
          [0 ..< length pages] \<and>
      (\<exists>chunks. snd (split_pages_with_metadata s pages) = Inr chunks \<and>
         map chunk_text chunks =
           concat (map (\<lambda>t. filter (\<lambda>part. strip part \<noteq> []) (s t))
                     (fst (split_pages_with_metadata s pages))))) \<and>
   (\<forall>p \<in> set (load_pdf_pages fname raws). page_num p \<noteq> []) \<and>
   map page_text (load_pdf_pages fname raws) = filter (\<lambda>t. t \<noteq> []) (map clean_text raws)"
proof -
  have a: "fst (split_pages_with_metadata s pages) =
        map (\<lambda>i. if i = 0 then page_text (pages ! 0)
                 else drop (length (page_text (pages ! (i - 1))) - 300)
                        (page_text (pages ! (i - 1))) @
                      '' '' @ page_text (pages ! i))
          [0 ..< length pages] \<and>
      (\<exists>chunks. snd (split_pages_with_metadata s pages) = Inr chunks \<and>
         map chunk_text chunks =
           concat (map (\<lambda>t. filter (\<lambda>part. strip part \<noteq> []) (s t))
                     (fst (split_pages_with_metadata s pages))))"
    if "\<forall>p \<in> set pages. page_num p \<noteq> []"
  proof -
    from that have "\<And>p. p \<in> set pages \<Longrightarrow> page_num p \<noteq> []"
      by blast
    from split_pages_result [of pages s, OF this] obtain chunks where
      r: "split_pages_with_metadata s pages =
            (map (text_to_split pages) [0 ..< length pages], Inr chunks)"
      and t: "map chunk_text chunks =
            concat (map (\<lambda>t. filter (\<lambda>part. strip part \<noteq> []) (s t))
                      (map (text_to_split pages) [0 ..< length pages]))"
      by blast
    from r have f: "fst (split_pages_with_metadata s pages) =
        map (text_to_split pages) [0 ..< length pages]"
      and sn: "snd (split_pages_with_metadata s pages) = Inr chunks"
      by simp_all
    from f have "fst (split_pages_with_metadata s pages) =
        map (\<lambda>i. if i = 0 then page_text (pages ! 0)
                 else drop (length (page_text (pages ! (i - 1))) - 300)
                        (page_text (pages ! (i - 1))) @
                      '' '' @ page_text (pages ! i))
          [0 ..< length pages]"
      by (simp only: text_to_split_explicit)
    moreover from sn t f have "\<exists>chunks. snd (split_pages_with_metadata s pages) = Inr chunks \<and>
         map chunk_text chunks =
           concat (map (\<lambda>t. filter (\<lambda>part. strip part \<noteq> []) (s t))
                     (fst (split_pages_with_metadata s pages)))"
      by (intro exI [of _ chunks]) simp
    ultimately show ?thesis
      by (rule conjI)
  qed
  have b: "\<forall>p \<in> set (load_pdf_pages fname raws). page_num p \<noteq> []"
    using load_pdf_pages_page_num by blast
  from a b load_pdf_pages_texts [of fname raws] show ?thesis
    by blast
qed

theorem splitter_receives_300_carry_witness:
  "fst (split_pages_with_metadata halves_splitter demo_pages) =
     [replicate 250 (CHR ''a''), replicate 250 (CHR ''a'') @ '' b'']"
proof -
  have pn: "\<forall>p \<in> set demo_pages. page_num p \<noteq> []"
    by (simp add: demo_pages_def)
  have "[0 ..< length demo_pages] = [0, 1]"
    by (simp add: demo_pages_def upt_rec)
  moreover have "demo_pages ! 0 = \<lparr>page_num = [1], source = ''f'', page_text = replicate 250 (CHR ''a'')\<rparr>"
    "demo_pages ! 1 = \<lparr>page_num = [2], source = ''f'', page_text = ''b''\<rparr>"
    by (simp_all add: demo_pages_def)
  ultimately show ?thesis
    using splitter_receives_300_carry [of demo_pages halves_splitter] pn by simp
qed

subsection \<open>Chunk ids\<close>

text \<open>
  The index \<open>j\<close> of a chunk id is the position of the part in the output of the splitter.
  A splitter that returned a blank part would leave a gap in the ids of the page: with
  a blank second part the chunks get the indices 0 and 2. The configured splitter strips
  every part and returns none that is blank.
\<close>

lemma blank_part_leaves_gap:
  "snd (split_pages_with_metadata demo_splitter (load_pdf_pages ''f'' [''one''])) =
     Inr [\<lparr>chunk_page_num = [1], chunk_source = ''f'', chunk_id = ''f_p1_c0'', chunk_text = ''a''\<rparr>,
          \<lparr>chunk_page_num = [1], chunk_source = ''f'', chunk_id = ''f_p1_c2'', chunk_text = ''b''\<rparr>]"
  by (rule demo_chunks)



end
